theory Spec2Isabelle
  imports Complex_Main
begin

section \<open>Catalog of programs and its search view\<close>

text \<open>
  The launcher (\<^verbatim>\<open>src/main.py\<close>) keeps the catalog it fetched as a list of dictionaries
  with the string fields \<^verbatim>\<open>program\<close>, \<^verbatim>\<open>version\<close>, \<^verbatim>\<open>README\<close> and
  \<^verbatim>\<open>binary_url\<close>. A descriptor is modelled as a record of these four strings: the
  input format of the catalog document.

  A Python string is modelled by its UTF-8 encoding: a \<open>string\<close> is the list of the
  bytes of the encoding, so a character outside ASCII is two to four bytes of the list.
  The launcher compares strings, joins them and replaces the space character, and the
  encoding preserves all of these; the one place where it looks at characters,
  \<^verbatim>\<open>str.strip()\<close>, is modelled on the encodings of the characters it removes.
\<close>

record program_descriptor =
  program :: string
  version :: string
  README :: string
  binary_url :: string

text \<open>Exceptions that can escape a method of the window.\<close>

datatype py_error =
    ValueError
  | IndexError
  | OSError string
  | RequestException string

text \<open>
  A \<^verbatim>\<open>Downloader\<close> thread object: the URL and the file name it was constructed with.
\<close>

record downloader_job =
  url :: string
  filename :: string

text \<open>
  The fields of \<^verbatim>\<open>programLauncher\<close> that the orchestration reads and writes.
  \<^item> \<open>current_row\<close> is \<^verbatim>\<open>program_list.currentRow()\<close>: \<open>-1\<close> when the list widget has
    no current item.
  \<^item> \<open>log_lines\<close> are the messages passed to \<^verbatim>\<open>self.log\<close>, oldest first.
  \<^item> \<open>launch_enabled\<close> and \<open>launch_text\<close> are the state of the launch button.
  \<^item> \<open>downloader\<close> is \<^verbatim>\<open>self.downloader\<close>.
  \<^item> \<open>running\<close> lists the downloader threads that were started and have not finished.
  \<^item> \<open>popen_calls\<close> lists the paths given to \<^verbatim>\<open>subprocess.Popen\<close>, oldest first.
\<close>

record launcher =
  program_data :: "program_descriptor list"
  original_program_data :: "program_descriptor list"
  search_choices :: "(string \<times> program_descriptor) list"
  current_row :: int
  log_lines :: "string list"
  launch_enabled :: bool
  launch_text :: string
  downloader :: "downloader_job option"
  running :: "downloader_job list"
  popen_calls :: "string list"

definition log :: "string \<Rightarrow> launcher \<Rightarrow> launcher" where
  "log message st = st\<lparr>log_lines := log_lines st @ [message]\<rparr>"

text \<open>
  The list widget is cleared and refilled from \<open>program_data\<close>; row \<open>0\<close> becomes current
  when the list is not empty, otherwise no row is current.
\<close>

definition refill_program_list :: "launcher \<Rightarrow> launcher" where
  "refill_program_list st =
     st\<lparr>current_row := (if program_data st \<noteq> [] then 0 else - 1)\<rparr>"

text \<open>The text a descriptor is searched by: \<^verbatim>\<open>f"{program} {version} {README}"\<close>.\<close>

definition combined_text :: "program_descriptor \<Rightarrow> string" where
  "combined_text p = program p @ '' '' @ version p @ '' '' @ README p"

text \<open>
  The fetched document: a single dictionary is treated as a one-element list.
\<close>

datatype json_data = Dict program_descriptor | Array "program_descriptor list"

definition load_data :: "py_error + json_data \<Rightarrow> launcher \<Rightarrow> py_error + launcher" where
  "load_data response st =
     (case response of
        Inl e \<Rightarrow> Inl e
      | Inr data \<Rightarrow>
          let st1 = st\<lparr>program_data := (case data of Dict d \<Rightarrow> [d] | Array ds \<Rightarrow> ds)\<rparr>;
              st2 = st1\<lparr>original_program_data := program_data st1\<rparr>;
              st3 = st2\<lparr>search_choices :=
                      map (\<lambda>p. (combined_text p, p)) (original_program_data st2)\<rparr>
          in Inr (refill_program_list st3))"

subsection \<open>Whitespace\<close>

text \<open>
  \<^verbatim>\<open>str.strip()\<close> removes the whitespace characters at both ends of a string. For
  Python these are the characters U+0009 to U+000D, U+001C to U+001F, U+0020, U+0085,
  U+00A0, U+1680, U+2000 to U+200A, U+2028, U+2029, U+202F, U+205F and U+3000.
  \<open>whitespace\<close> lists their UTF-8 encodings: one byte each for those below U+0080, the
  bytes \<open>C2 85\<close> and \<open>C2 A0\<close> for U+0085 and U+00A0, \<open>E1 9A 80\<close> for U+1680,
  \<open>E2 80 80\<close> to \<open>E2 80 8A\<close> for U+2000 to U+200A, \<open>E2 80 A8\<close>, \<open>E2 80 A9\<close> and
  \<open>E2 80 AF\<close> for U+2028, U+2029 and U+202F, \<open>E2 81 9F\<close> for U+205F and
  \<open>E3 80 80\<close> for U+3000. (The byte \<open>A0\<close> alone is no character of a string: it
  occurs only as the second or a later byte of an encoding.)
\<close>

definition whitespace :: "string list" where
  "whitespace =
     map (\<lambda>c. [c])
       [CHR 0x09, CHR 0x0A, CHR 0x0B, CHR 0x0C, CHR 0x0D,
        CHR 0x1C, CHR 0x1D, CHR 0x1E, CHR 0x1F, CHR 0x20] @
     map (\<lambda>c. [CHR 0xC2, c]) [CHR 0x85, CHR 0xA0] @
     map (\<lambda>c. [CHR 0xE1, CHR 0x9A, c]) [CHR 0x80] @
     map (\<lambda>c. [CHR 0xE2, CHR 0x80, c])
       [CHR 0x80, CHR 0x81, CHR 0x82, CHR 0x83, CHR 0x84, CHR 0x85, CHR 0x86, CHR 0x87,
        CHR 0x88, CHR 0x89, CHR 0x8A, CHR 0xA8, CHR 0xA9, CHR 0xAF] @
     map (\<lambda>c. [CHR 0xE2, CHR 0x81, c]) [CHR 0x9F] @
     map (\<lambda>c. [CHR 0xE3, CHR 0x80, c]) [CHR 0x80]"

text \<open>
  \<open>leading ws s\<close> is the number of bytes of the character of \<open>ws\<close> that \<open>s\<close> starts
  with, and 0 when it starts with none. \<open>strip_leading\<close> removes such characters as long
  as there is one.
\<close>

definition leading :: "string list \<Rightarrow> string \<Rightarrow> nat" where
  "leading ws s =
     (case find (\<lambda>w. take (length w) s = w) ws of
        None \<Rightarrow> 0
      | Some w \<Rightarrow> length w)"

function strip_leading :: "string list \<Rightarrow> string \<Rightarrow> string" where
  "strip_leading ws s =
     (if leading ws s = 0 then s else strip_leading ws (drop (leading ws s) s))"
  by pat_completeness auto
termination
proof (relation "measure (\<lambda>(ws, s). length s)")
  show "wf (measure (\<lambda>(ws, s). length s))" by simp
next
  fix ws :: "string list" and s :: string
  assume pos: "leading ws s \<noteq> 0"
  then obtain w where "find (\<lambda>w. take (length w) s = w) ws = Some w" "length w \<noteq> 0"
    by (auto simp: leading_def split: option.splits)
  then have "take (length w) s = w" "w \<noteq> []"
    by (auto simp: find_Some_iff)
  then have "s \<noteq> []" by auto
  with pos show "((ws, drop (leading ws s) s), (ws, s)) \<in> measure (\<lambda>(ws, s). length s)"
    by simp
qed

declare strip_leading.simps [simp del]

text \<open>
  At the end of the string the same is done on the reversed bytes, with the encodings
  reversed.
\<close>

definition lstrip :: "string \<Rightarrow> string" where
  "lstrip s = strip_leading whitespace s"

definition rstrip :: "string \<Rightarrow> string" where
  "rstrip s = rev (strip_leading (map rev whitespace) (rev s))"

definition strip :: "string \<Rightarrow> string" where
  "strip s = rstrip (lstrip s)"

subsection \<open>Ranking\<close>

text \<open>
  \<^verbatim>\<open>rapidfuzz.process.extract(query, choices, scorer, processor, limit)\<close> is a library
  function. It scores every choice, and returns the triples (choice, score, index) of the
  \<open>limit\<close> best ones, best score first; choices with equal scores keep the order of
  their indices. The scorer (\<^verbatim>\<open>fuzz.WRatio\<close> applied after \<^verbatim>\<open>utils.default_process\<close>)
  is a parameter of the model: a function from the query and a choice to a score.
\<close>

definition process_extract ::
  "(string \<Rightarrow> string \<Rightarrow> real) \<Rightarrow> string \<Rightarrow> string list \<Rightarrow> nat \<Rightarrow> (string \<times> real \<times> nat) list" where
  "process_extract scorer query choices limit =
     take limit
       (sort_key (\<lambda>(choice, score, index). - score)
          (map (\<lambda>(index, choice). (choice, scorer query choice, index)) (enumerate 0 choices)))"

text \<open>\<^verbatim>\<open>list.index(x)\<close>: the first position of \<open>x\<close>; \<open>None\<close> is the \<^verbatim>\<open>ValueError\<close>.\<close>

fun index_of :: "'a list \<Rightarrow> 'a \<Rightarrow> nat option" where
  "index_of [] x = None"
| "index_of (y # ys) x = (if y = x then Some 0 else map_option Suc (index_of ys x))"

text \<open>
  The loop over the results: the position of the result's text in \<open>choice_texts\<close> selects
  the descriptor, which is kept when the score is at least 60.
\<close>

fun filter_loop ::
  "(string \<times> program_descriptor) list \<Rightarrow> string list \<Rightarrow> (string \<times> real \<times> nat) list \<Rightarrow>
   program_descriptor list \<Rightarrow> py_error + program_descriptor list" where
  "filter_loop choices choice_texts [] filtered_programs = Inr filtered_programs"
| "filter_loop choices choice_texts ((text, score, k) # results) filtered_programs =
     (case index_of choice_texts text of
        None \<Rightarrow> Inl ValueError
      | Some index \<Rightarrow>
          if score \<ge> 60 then
            (if index < length choices
             then filter_loop choices choice_texts results
                    (filtered_programs @ [snd (choices ! index)])
             else Inl IndexError)
          else filter_loop choices choice_texts results filtered_programs)"

definition filter_programs ::
  "(string \<Rightarrow> string \<Rightarrow> real) \<Rightarrow> string \<Rightarrow> launcher \<Rightarrow> py_error + launcher" where
  "filter_programs scorer search_text st =
     (if strip search_text = [] then
        Inr (refill_program_list (st\<lparr>program_data := original_program_data st\<rparr>))
      else
        let choice_texts = map fst (search_choices st);
            results = process_extract scorer search_text choice_texts (length choice_texts)
        in case filter_loop (search_choices st) choice_texts results [] of
             Inl e \<Rightarrow> Inl e
           | Inr filtered_programs \<Rightarrow>
               Inr (refill_program_list (st\<lparr>program_data := filtered_programs\<rparr>)))"

text \<open>
  The search as the specification words it, to compare \<open>filter_programs\<close> with: the
  entries that score at least 60, best score first, entries with equal scores in the
  order of the catalog.
\<close>

definition spec_query ::
  "(string \<Rightarrow> string \<Rightarrow> real) \<Rightarrow> string \<Rightarrow> program_descriptor list \<Rightarrow> program_descriptor list" where
  "spec_query scorer query original =
     filter (\<lambda>p. scorer query (combined_text p) \<ge> 60)
       (sort_key (\<lambda>p. - scorer query (combined_text p)) original)"

section \<open>Launching\<close>

subsection \<open>Destination path\<close>

text \<open>
  \<^verbatim>\<open>fr".\bin\{program_name.replace(' ', '_')}.exe"\<close>: a raw string, so the separators are
  backslashes (character \<open>0x5C\<close>).
\<close>

definition backslash :: char where
  "backslash = CHR 0x5C"

definition replace_spaces :: "string \<Rightarrow> string" where
  "replace_spaces s = map (\<lambda>c. if c = CHR '' '' then CHR ''_'' else c) s"

definition binary_path_of :: "string \<Rightarrow> string" where
  "binary_path_of program_name =
     [CHR ''.'', backslash] @ ''bin'' @ [backslash] @ replace_spaces program_name @ ''.exe''"

text \<open>
  \<^verbatim>\<open>os.path.dirname\<close> of the Windows path module, for a path without drive or UNC
  prefix (the paths above start with a dot): everything up to the last separator, with
  the trailing separators removed.
\<close>

definition is_sep :: "char \<Rightarrow> bool" where
  "is_sep c = (c = backslash \<or> c = CHR ''/'')"

definition dirname :: "string \<Rightarrow> string" where
  "dirname p = rev (dropWhile is_sep (dropWhile (\<lambda>c. \<not> is_sep c) (rev p)))"

subsection \<open>The operating system\<close>

text \<open>
  What the operating system answers when the launcher asks:
  \<^item> \<open>path_exists\<close> is \<^verbatim>\<open>os.path.exists\<close>;
  \<^item> \<open>makedirs_error\<close> is \<^verbatim>\<open>os.makedirs\<close>: \<open>None\<close> when the directory is created,
    the message of the \<^verbatim>\<open>OSError\<close> otherwise;
  \<^item> \<open>popen_error\<close> is \<^verbatim>\<open>subprocess.Popen\<close>: \<open>None\<close> when the process is spawned,
    the message of the exception otherwise.
\<close>

record world =
  path_exists :: "string \<Rightarrow> bool"
  makedirs_error :: "string \<Rightarrow> string option"
  popen_error :: "string \<Rightarrow> string option"

subsection \<open>Slots of the window\<close>

definition launch_existing_program :: "world \<Rightarrow> string \<Rightarrow> launcher \<Rightarrow> launcher" where
  "launch_existing_program w binary_path st =
     (let st1 = log (''Starting: '' @ binary_path) st;
          st2 = st1\<lparr>popen_calls := popen_calls st1 @ [binary_path]\<rparr>
      in case popen_error w binary_path of
           None \<Rightarrow> log (binary_path @ '' started successfully'') st2
         | Some e \<Rightarrow> log (''Error starting: '' @ e) st2)"

text \<open>
  \<^verbatim>\<open>launch_program\<close> returns the state it leaves and the exception that escaped it, if
  any: \<^verbatim>\<open>os.makedirs\<close> is called outside any \<^verbatim>\<open>try\<close>. The progress bar is not part of
  the model.
\<close>

definition launch_program :: "world \<Rightarrow> launcher \<Rightarrow> launcher \<times> py_error option" where
  "launch_program w st =
     (let st1 = log ''Launch button pressed'' st;
          row = current_row st1
      in if \<not> (0 \<le> row \<and> row < int (length (program_data st1))) then
           (log ''No program selected'' st1, None)
         else
           let entry = program_data st1 ! nat row;
               program_name = program entry;
               binary_path = binary_path_of program_name
           in if \<not> path_exists w binary_path then
                let st2 = log (''Starting download of '' @ program_name) st1;
                    bin_dir = dirname binary_path;
                    created =
                      (if \<not> path_exists w bin_dir then
                         (case makedirs_error w bin_dir of
                            Some e \<Rightarrow> Inl (OSError e)
                          | None \<Rightarrow> Inr (log (''Created directory: '' @ bin_dir) st2))
                       else Inr st2)
                in case created of
                     Inl e \<Rightarrow> (st2, Some e)
                   | Inr st3 \<Rightarrow>
                       let job = \<lparr>url = binary_url entry, filename = binary_path\<rparr>
                       in (st3\<lparr>launch_enabled := False,
                               launch_text := ''Downloading...'',
                               downloader := Some job,
                               running := running st3 @ [job]\<rparr>, None)
              else (launch_existing_program w binary_path st1, None))"

definition download_succeeded :: "world \<Rightarrow> launcher \<Rightarrow> launcher" where
  "download_succeeded w st =
     (let st1 = log ''Binary downloaded successfully'' st;
          row = current_row st1
      in if 0 \<le> row \<and> row < int (length (program_data st1)) then
           launch_existing_program w (binary_path_of (program (program_data st1 ! nat row))) st1
         else st1)"

definition download_failed :: "string \<Rightarrow> launcher \<Rightarrow> launcher" where
  "download_failed error_message st =
     (log (''Download failed: '' @ error_message) st)\<lparr>launch_text := ''Launch Failed''\<rparr>"

definition download_finished :: "launcher \<Rightarrow> launcher" where
  "download_finished st =
     (let st1 = st\<lparr>launch_enabled := True, launch_text := ''Launch''\<rparr>
      in case downloader st1 of
           Some d \<Rightarrow> st1\<lparr>downloader := None\<rparr>
         | None \<Rightarrow> st1)"

subsection \<open>The window as an event handler\<close>

text \<open>
  The window after \<^verbatim>\<open>setup_ui\<close>: an empty list, the launch button enabled.
\<close>

definition new_launcher :: launcher where
  "new_launcher =
     \<lparr>program_data = [], original_program_data = [], search_choices = [],
      current_row = - 1, log_lines = [], launch_enabled = True, launch_text = ''Launch'',
      downloader = None, running = [], popen_calls = []\<rparr>"

text \<open>
  The signals the window is connected to. A click reaches \<^verbatim>\<open>launch_program\<close> only
  while the button is enabled; the user can make current only a row the list has; the
  signals of a downloader thread arrive only while a thread runs, and \<open>Thread_finished\<close>
  ends the oldest one.
\<close>

datatype ui_event =
    Launch_clicked
  | Text_changed string
  | Row_selected int
  | Download_succeeded
  | Download_failed string
  | Thread_finished

definition handle ::
  "(string \<Rightarrow> string \<Rightarrow> real) \<Rightarrow> world \<Rightarrow> ui_event \<Rightarrow> launcher \<Rightarrow> launcher" where
  "handle scorer w ev st =
     (case ev of
        Launch_clicked \<Rightarrow> if launch_enabled st then fst (launch_program w st) else st
      | Text_changed search_text \<Rightarrow>
          (case filter_programs scorer search_text st of Inr st' \<Rightarrow> st' | Inl e \<Rightarrow> st)
      | Row_selected i \<Rightarrow>
          if 0 \<le> i \<and> i < int (length (program_data st)) then st\<lparr>current_row := i\<rparr> else st
      | Download_succeeded \<Rightarrow> if running st \<noteq> [] then download_succeeded w st else st
      | Download_failed msg \<Rightarrow> if running st \<noteq> [] then download_failed msg st else st
      | Thread_finished \<Rightarrow>
          (case running st of
             [] \<Rightarrow> st
           | job # jobs \<Rightarrow> (download_finished st)\<lparr>running := jobs\<rparr>))"

fun handle_all ::
  "(string \<Rightarrow> string \<Rightarrow> real) \<Rightarrow> (world \<times> ui_event) list \<Rightarrow> launcher \<Rightarrow> launcher" where
  "handle_all scorer [] st = st"
| "handle_all scorer ((w, ev) # evs) st = handle_all scorer evs (handle scorer w ev st)"

section \<open>Downloader\<close>

text \<open>
  What \<^verbatim>\<open>Downloader.run\<close> does that can be observed: the signals it emits and the
  chunks it writes to the file, in order.
\<close>

datatype signal =
    SetTotalProgress int
  | SetCurrentProgress int
  | Succeeded
  | Failed string

datatype action = Emit signal | Write string

text \<open>
  The network and the file system as the thread meets them. An \<open>Inl\<close> or a \<open>Some\<close>
  message is an exception raised by the call.
  \<^item> \<open>status_error\<close>: \<^verbatim>\<open>raise_for_status()\<close>;
  \<^item> \<open>content_length\<close>: the header, read by \<^verbatim>\<open>int(...)\<close>: \<open>None\<close> when the header is
    absent, \<open>Inl\<close> when \<^verbatim>\<open>int\<close> rejects it;
  \<^item> \<open>body\<close>: what the iterator of \<^verbatim>\<open>iter_content\<close> gives, step by step: a chunk, or an
    exception that ends the transfer;
  \<^item> \<open>write_error\<close>: whether \<^verbatim>\<open>f.write\<close> fails once that many bytes are written.
\<close>

record http_response =
  status_error :: "string option"
  content_length :: "(string + int) option"
  body :: "(string + string) list"

record transfer =
  get_response :: "string + http_response"
  open_error :: "string option"
  write_error :: "int \<Rightarrow> string option"
  close_error :: "string option"

fun write_loop ::
  "(int \<Rightarrow> string option) \<Rightarrow> (string + string) list \<Rightarrow> int \<Rightarrow> action list \<times> string option" where
  "write_loop werr [] downloaded_size = ([], None)"
| "write_loop werr (Inl msg # rest) downloaded_size = ([], Some msg)"
| "write_loop werr (Inr chunk # rest) downloaded_size =
     (if chunk \<noteq> [] then
        (case werr downloaded_size of
           Some msg \<Rightarrow> ([], Some msg)
         | None \<Rightarrow>
             let d = downloaded_size + int (length chunk);
                 (acts, raised) = write_loop werr rest d
             in (Write chunk # Emit (SetCurrentProgress d) # acts, raised))
      else write_loop werr rest downloaded_size)"

definition run :: "transfer \<Rightarrow> action list" where
  "run t =
     (case get_response t of
        Inl msg \<Rightarrow> [Emit (Failed msg)]
      | Inr response \<Rightarrow>
          (case status_error response of
             Some msg \<Rightarrow> [Emit (Failed msg)]
           | None \<Rightarrow>
               (case content_length response of
                  Some (Inl msg) \<Rightarrow> [Emit (Failed msg)]
                | header \<Rightarrow>
                    let total_size = (case header of Some (Inr n) \<Rightarrow> n | _ \<Rightarrow> 0)
                    in Emit (SetTotalProgress total_size) #
                       (case open_error t of
                          Some msg \<Rightarrow> [Emit (Failed msg)]
                        | None \<Rightarrow>
                            let (acts, raised) = write_loop (write_error t) (body response) 0
                            in acts @
                               (case (raised, close_error t) of
                                  (_, Some msg) \<Rightarrow> [Emit (Failed msg)]
                                | (Some msg, None) \<Rightarrow> [Emit (Failed msg)]
                                | (None, None) \<Rightarrow> [Emit Succeeded])))))"

text \<open>The signals of a run, and whether a signal ends it.\<close>

fun emitted :: "action list \<Rightarrow> signal list" where
  "emitted [] = []"
| "emitted (Emit s # acts) = s # emitted acts"
| "emitted (Write c # acts) = emitted acts"

fun is_terminal :: "signal \<Rightarrow> bool" where
  "is_terminal Succeeded = True"
| "is_terminal (Failed msg) = True"
| "is_terminal s = False"

text \<open>
  The order \<open>SetTotalProgress?, SetCurrentProgress*, (Succeeded | Failed)\<close>, as a check
  of a list of signals.
\<close>

fun progress_then_terminal :: "signal list \<Rightarrow> bool" where
  "progress_then_terminal [] = False"
| "progress_then_terminal (SetCurrentProgress n # ss) = progress_then_terminal ss"
| "progress_then_terminal (SetTotalProgress n # ss) = False"
| "progress_then_terminal (s # ss) = (ss = [])"

fun signal_order :: "signal list \<Rightarrow> bool" where
  "signal_order (SetTotalProgress n # ss) = progress_then_terminal ss"
| "signal_order ss = progress_then_terminal ss"

text \<open>
  Every \<open>SetCurrentProgress\<close> carries the number of bytes written before it, \<open>n\<close> being
  the number written before the list starts.
\<close>

fun progress_is_cumulative :: "int \<Rightarrow> action list \<Rightarrow> bool" where
  "progress_is_cumulative n [] = True"
| "progress_is_cumulative n (Write c # acts) = progress_is_cumulative (n + int (length c)) acts"
| "progress_is_cumulative n (Emit (SetCurrentProgress m) # acts) =
     (m = n \<and> progress_is_cumulative n acts)"
| "progress_is_cumulative n (Emit s # acts) = progress_is_cumulative n acts"

section \<open>Example inputs\<close>

text \<open>The catalog entry of the specification's scenarios, and a second entry.\<close>

definition foo :: program_descriptor where
  "foo = \<lparr>program = ''Foo'', version = ''1.0'', README = ''# Foo'',
           binary_url = ''http://x/foo.exe''\<rparr>"

definition bar :: program_descriptor where
  "bar = \<lparr>program = ''Bar Baz'', version = ''2.0'', README = ''# Bar'',
           binary_url = ''http://x/bar.exe''\<rparr>"

text \<open>
  Three entries with different names. The first and the third have the same search text
  \<open>''a b c d''\<close>; the text of the second differs from it in the case of one letter.
\<close>

definition entry_1 :: program_descriptor where
  "entry_1 = \<lparr>program = ''a b'', version = ''c'', README = ''d'',
               binary_url = ''http://x/1.exe''\<rparr>"

definition entry_2 :: program_descriptor where
  "entry_2 = \<lparr>program = ''A'', version = ''b'', README = ''c d'',
               binary_url = ''http://x/2.exe''\<rparr>"

definition entry_3 :: program_descriptor where
  "entry_3 = \<lparr>program = ''a'', version = ''b c'', README = ''d'',
               binary_url = ''http://x/3.exe''\<rparr>"

text \<open>
  A scorer for the examples: 100 for a choice that equals the query up to the case of its
  letters (the score of the library's scorer for such a pair, which compares the strings
  in lower case), and 0 for any other choice.
\<close>

definition to_lower :: "char \<Rightarrow> char" where
  "to_lower c =
     (case map_of (zip ''ABCDEFGHIJKLMNOPQRSTUVWXYZ'' ''abcdefghijklmnopqrstuvwxyz'') c of
        Some l \<Rightarrow> l
      | None \<Rightarrow> c)"

definition same_text_scorer :: "string \<Rightarrow> string \<Rightarrow> real" where
  "same_text_scorer query choice =
     (if map to_lower query = map to_lower choice then 100 else 0)"

text \<open>
  Two whitespace characters outside ASCII: the no-break space U+00A0 and the ideographic
  space U+3000.
\<close>

definition no_break_space :: string where
  "no_break_space = [CHR 0xC2, CHR 0xA0]"

definition ideographic_space :: string where
  "ideographic_space = [CHR 0xE3, CHR 0x80, CHR 0x80]"

text \<open>The window after a catalog has been loaded.\<close>

definition loaded :: "program_descriptor list \<Rightarrow> launcher" where
  "loaded catalog =
     (case load_data (Inr (Array catalog)) new_launcher of
        Inr st \<Rightarrow> st
      | Inl e \<Rightarrow> new_launcher)"

text \<open>
  A disk on which no path exists and everything can be created; the same disk when
  nothing can be created; and a disk that holds the given paths.
\<close>

definition empty_disk :: world where
  "empty_disk =
     \<lparr>path_exists = (\<lambda>p. False), makedirs_error = (\<lambda>p. None), popen_error = (\<lambda>p. None)\<rparr>"

definition read_only_disk :: world where
  "read_only_disk =
     \<lparr>path_exists = (\<lambda>p. False), makedirs_error = (\<lambda>p. Some ''Access is denied''),
      popen_error = (\<lambda>p. None)\<rparr>"

definition disk_with :: "string list \<Rightarrow> world" where
  "disk_with paths =
     \<lparr>path_exists = (\<lambda>p. p \<in> set paths), makedirs_error = (\<lambda>p. None),
      popen_error = (\<lambda>p. None)\<rparr>"

text \<open>
  A transfer of five bytes in two chunks, with an empty chunk in between; and one whose
  connection breaks after the first chunk.
\<close>

definition complete_transfer :: transfer where
  "complete_transfer =
     \<lparr>get_response =
        Inr \<lparr>status_error = None, content_length = Some (Inr 5),
             body = [Inr ''abc'', Inr [], Inr ''de'']\<rparr>,
      open_error = None, write_error = (\<lambda>n. None), close_error = None\<rparr>"

definition broken_transfer :: transfer where
  "broken_transfer =
     \<lparr>get_response =
        Inr \<lparr>status_error = None, content_length = None,
             body = [Inr ''abc'', Inl ''connection reset'', Inr ''de'']\<rparr>,
      open_error = None, write_error = (\<lambda>n. None), close_error = None\<rparr>"

section \<open>Search: properties\<close>

lemmas example_defs =
  foo_def bar_def entry_1_def entry_2_def entry_3_def loaded_def load_data_def
  new_launcher_def refill_program_list_def combined_text_def

text \<open>
  A string that starts with a whitespace character starts with exactly that one: no
  encoding in the list is the beginning of another.
\<close>

lemma leading_all:
  "\<forall>w\<in>set whitespace. leading whitespace (w @ rest) = length w \<and> length w \<noteq> 0"
  by (simp add: whitespace_def leading_def)

lemma strip_leading_Nil: "strip_leading ws [] = []"
  by (subst strip_leading.simps) (auto simp: leading_def find_Some_iff split: option.splits)

lemma lstrip_whitespace:
  "set ws \<subseteq> set whitespace \<Longrightarrow> lstrip (concat ws) = []"
proof (induction ws)
  case Nil
  then show ?case by (simp add: lstrip_def strip_leading_Nil)
next
  case (Cons w ws)
  then have w: "w \<in> set whitespace" and rest: "lstrip (concat ws) = []" by simp_all
  from w leading_all [of "concat ws"]
  have "leading whitespace (w @ concat ws) = length w" "length w \<noteq> 0"
    by blast+
  with rest show ?case
    by (simp add: lstrip_def) (subst strip_leading.simps, simp)
qed

text \<open>A string of whitespace characters is stripped to the empty string.\<close>

lemma strip_whitespace: "set ws \<subseteq> set whitespace \<Longrightarrow> strip (concat ws) = []"
  by (simp add: strip_def rstrip_def lstrip_whitespace strip_leading_Nil)

lemma leading_pos:
  "leading ws s \<noteq> 0 \<Longrightarrow> \<exists>w\<in>set ws. leading ws s = length w \<and> s = w @ drop (length w) s"
proof -
  assume "leading ws s \<noteq> 0"
  then obtain w where f: "find (\<lambda>w. take (length w) s = w) ws = Some w" and "leading ws s = length w"
    by (auto simp: leading_def split: option.splits)
  moreover from f have "w \<in> set ws" "take (length w) s = w"
    by (auto simp: find_Some_iff)
  moreover from this have "s = w @ drop (length w) s"
    by (metis append_take_drop_id)
  ultimately show ?thesis by blast
qed

lemma strip_leading_splits:
  "\<exists>xs. set xs \<subseteq> set ws \<and> s = concat xs @ strip_leading ws s"
proof (induction ws s rule: strip_leading.induct)
  case (1 ws s)
  show ?case
  proof (cases "leading ws s = 0")
    case True
    then have "strip_leading ws s = s" by (subst strip_leading.simps) simp
    then have "set [] \<subseteq> set ws \<and> s = concat [] @ strip_leading ws s" by simp
    then show ?thesis by blast
  next
    case False
    from leading_pos [OF False] obtain w where
      w: "w \<in> set ws" "leading ws s = length w" "s = w @ drop (length w) s"
      by blast
    from 1 [OF False] obtain xs where
      xs: "set xs \<subseteq> set ws" "drop (leading ws s) s = concat xs @ strip_leading ws (drop (leading ws s) s)"
      by blast
    have "strip_leading ws s = strip_leading ws (drop (leading ws s) s)"
      using False by (subst strip_leading.simps) simp
    with w xs have "set (w # xs) \<subseteq> set ws \<and> s = concat (w # xs) @ strip_leading ws s"
      by (metis append.assoc concat.simps(2) insert_subset list.simps(15))
    then show ?thesis by blast
  qed
qed

lemma strip_leading_done: "leading ws (strip_leading ws s) = 0"
proof (induction ws s rule: strip_leading.induct)
  case (1 ws s)
  then show ?case by (subst strip_leading.simps) auto
qed

lemma concat_whitespace_leading:
  assumes "set xs \<subseteq> set whitespace" and "concat xs \<noteq> []"
  shows "leading whitespace (concat xs) \<noteq> 0"
  using assms
proof (induction xs)
  case Nil
  then show ?case by simp
next
  case (Cons w xs)
  then have "w \<in> set whitespace" by simp
  with leading_all [of "concat xs"] show ?case by auto
qed

lemma rev_concat_whitespace:
  "set xs \<subseteq> set (map rev whitespace) \<Longrightarrow>
     \<exists>ys. set ys \<subseteq> set whitespace \<and> rev (concat xs) = concat ys"
proof -
  assume a: "set xs \<subseteq> set (map rev whitespace)"
  have "rev (concat xs) = concat (map rev (rev xs))" by (simp add: rev_concat rev_map)
  moreover from a have "set (map rev (rev xs)) \<subseteq> set whitespace" by auto
  ultimately show ?thesis by blast
qed

text \<open>
  The search text is stripped to the empty string exactly when it is a sequence of
  whitespace characters: \<open>filter_programs\<close> resets for these texts and for no other.
\<close>

lemma strip_empty_iff:
  "strip s = [] \<longleftrightarrow> (\<exists>ws. set ws \<subseteq> set whitespace \<and> s = concat ws)"
proof
  assume e: "strip s = []"
  let ?r = "lstrip s"
  from e have "strip_leading (map rev whitespace) (rev ?r) = []"
    by (simp add: strip_def rstrip_def)
  with strip_leading_splits [of "map rev whitespace" "rev ?r"]
  obtain xs where "set xs \<subseteq> set (map rev whitespace)" "rev ?r = concat xs"
    by auto
  with rev_concat_whitespace [of xs] obtain ys where
    ys: "set ys \<subseteq> set whitespace" "?r = concat ys"
    by (metis rev_rev_ident)
  have "leading whitespace ?r = 0"
    by (simp add: lstrip_def strip_leading_done)
  with concat_whitespace_leading [OF ys(1)] ys(2) have "?r = []" by auto
  with strip_leading_splits [of whitespace s] show "\<exists>ws. set ws \<subseteq> set whitespace \<and> s = concat ws"
    by (auto simp: lstrip_def)
next
  assume "\<exists>ws. set ws \<subseteq> set whitespace \<and> s = concat ws"
  then show "strip s = []" using strip_whitespace by blast
qed

text \<open>The query of the examples has no whitespace at its ends.\<close>

lemma strip_query: "strip ''a b c d'' = ''a b c d''"
  by (simp add: strip_def rstrip_def lstrip_def strip_leading.simps leading_def whitespace_def)

lemmas search_defs =
  filter_programs_def strip_query process_extract_def same_text_scorer_def
  to_lower_def enumerate_eq_zip

text \<open>
  Claim C3. A search text that is empty or consists of whitespace characters only (those
  that \<^verbatim>\<open>str.strip()\<close> removes, in or outside ASCII) resets the view: \<open>filter_programs\<close>
  returns, and the active list is the original list, with the same length and the same
  order; the original list is the one it was.
\<close>

theorem filter_programs_reset:
  assumes "set ws \<subseteq> set whitespace"
  shows "\<exists>st'. filter_programs scorer (concat ws) st = Inr st' \<and>
           program_data st' = original_program_data st \<and>
           length (program_data st') = length (original_program_data st) \<and>
           original_program_data st' = original_program_data st"
  using strip_whitespace [OF assms]
  by (simp add: filter_programs_def refill_program_list_def)

text \<open>
  The reset at work: after a search for \<open>''a b c d''\<close> has replaced the view of the
  catalog \<open>[foo, bar]\<close> by the empty list, a search for a no-break space, a space and an
  ideographic space brings back \<open>[foo, bar]\<close>, and so does the empty search text.
\<close>

theorem filter_programs_reset_witness:
  "\<exists>st st' st''.
     filter_programs same_text_scorer ''a b c d'' (loaded [foo, bar]) = Inr st \<and>
     program_data st = [] \<and>
     filter_programs same_text_scorer (no_break_space @ '' '' @ ideographic_space) st =
       Inr st' \<and>
     program_data st' = [foo, bar] \<and>
     filter_programs same_text_scorer [] st = Inr st'' \<and>
     program_data st'' = [foo, bar]"
proof -
  obtain st where st: "filter_programs same_text_scorer ''a b c d'' (loaded [foo, bar]) = Inr st"
    and view: "program_data st = []" and orig: "original_program_data st = [foo, bar]"
    by (simp add: example_defs search_defs)
  have blank: "set [no_break_space, '' '', ideographic_space] \<subseteq> set whitespace"
    by (simp add: whitespace_def no_break_space_def ideographic_space_def)
  have none: "set ([] :: string list) \<subseteq> set whitespace"
    by simp
  from filter_programs_reset [OF blank, of same_text_scorer st] orig
  obtain st' where
    "filter_programs same_text_scorer (no_break_space @ '' '' @ ideographic_space) st = Inr st'"
    and "program_data st' = [foo, bar]"
    by auto
  moreover from filter_programs_reset [OF none, of same_text_scorer st] orig
  obtain st'' where "filter_programs same_text_scorer [] st = Inr st''"
    and "program_data st'' = [foo, bar]"
    by auto
  ultimately show ?thesis using st view by blast
qed

subsection \<open>What a search returns\<close>

text \<open>
  After \<open>load_data\<close> the two views are the catalog, and the search texts are those of
  the entries of the original list, position by position.
\<close>

lemma load_data_views:
  "load_data (Inr (Array catalog)) st = Inr st' \<Longrightarrow>
     program_data st' = catalog \<and> original_program_data st' = catalog \<and>
     search_choices st' = map (\<lambda>p. (combined_text p, p)) (original_program_data st')"
  by (auto simp: load_data_def refill_program_list_def Let_def)

lemma index_of_first:
  "x \<in> set xs \<Longrightarrow>
     \<exists>j. index_of xs x = Some j \<and> j < length xs \<and> xs ! j = x"
proof (induction xs)
  case Nil
  then show ?case by simp
next
  case (Cons y ys)
  show ?case
  proof (cases "y = x")
    case True
    then show ?thesis by simp
  next
    case False
    with Cons.prems have "x \<in> set ys" by simp
    from Cons.IH [OF this] obtain j where "index_of ys x = Some j" "j < length ys" "ys ! j = x"
      by blast
    with False show ?thesis by simp
  qed
qed

lemma index_of_distinct:
  "distinct xs \<Longrightarrow> i < length xs \<Longrightarrow> index_of xs (xs ! i) = Some i"
proof (induction xs arbitrary: i)
  case Nil
  then show ?case by simp
next
  case (Cons y ys)
  show ?case
  proof (cases i)
    case 0
    then show ?thesis by simp
  next
    case (Suc k)
    with Cons.prems have "k < length ys" "ys ! k \<noteq> y" "distinct ys"
      by auto
    with Cons.IH [of k] Suc show ?thesis by auto
  qed
qed

lemma filter_loop_eq:
  assumes "\<forall>r\<in>set results. fst r \<in> set cts" and "length choices = length cts"
  shows "filter_loop choices cts results acc =
     Inr (acc @ map (\<lambda>r. snd (choices ! the (index_of cts (fst r))))
                  (filter (\<lambda>r. fst (snd r) \<ge> 60) results))"
  using assms(1)
proof (induction results arbitrary: acc)
  case Nil
  then show ?case by simp
next
  case (Cons r results)
  obtain c s k where r: "r = (c, s, k)" by (cases r)
  with Cons.prems have "c \<in> set cts" by simp
  from index_of_first [OF this] obtain j where j: "index_of cts c = Some j" "j < length cts"
    by blast
  from Cons.prems have rest: "\<forall>r\<in>set results. fst r \<in> set cts" by simp
  show ?case
    using j assms(2) Cons.IH [OF rest] by (simp add: r)
qed

lemma process_extract_all:
  "process_extract scorer q cts (length cts) =
     sort_key (\<lambda>(choice, score, index). - score)
       (map (\<lambda>(index, choice). (choice, scorer q choice, index)) (enumerate 0 cts))"
  by (simp add: process_extract_def)

lemma process_extract_set:
  "r \<in> set (process_extract scorer q cts (length cts)) \<Longrightarrow>
     snd (snd r) < length cts \<and> fst r = cts ! snd (snd r) \<and> fst (snd r) = scorer q (fst r)"
  by (auto simp: process_extract_all in_set_enumerate_eq)

lemma process_extract_sorted:
  "sorted_wrt (\<ge>) (map (\<lambda>r. fst (snd r)) (process_extract scorer q cts (length cts)))"
proof -
  let ?f = "\<lambda>(choice :: string, score :: real, index :: nat). - score"
  let ?xs = "map (\<lambda>(index, choice). (choice, scorer q choice, index)) (enumerate 0 cts)"
  have "sorted (map ?f (sort_key ?f ?xs))" by (rule sorted_sort_key)
  then have "sorted_wrt (\<lambda>a b. ?f a \<le> ?f b) (sort_key ?f ?xs)"
    by (simp add: sorted_wrt_map)
  then have "sorted_wrt (\<lambda>a b. fst (snd a) \<ge> fst (snd b)) (sort_key ?f ?xs)"
    by (rule sorted_wrt_mono_rel [rotated]) auto
  then show ?thesis by (simp add: process_extract_all sorted_wrt_map)
qed

text \<open>
  \<open>filter_programs\<close> always returns: neither \<^verbatim>\<open>list.index\<close> nor the subscript can
  fail, since every result is one of the texts searched.
\<close>

lemma filter_programs_returns:
  "\<exists>st'. filter_programs scorer q st = Inr st'"
proof (cases "strip q = []")
  case True
  then show ?thesis by (simp add: filter_programs_def)
next
  case False
  let ?cts = "map fst (search_choices st)"
  have "\<forall>r\<in>set (process_extract scorer q ?cts (length ?cts)). fst r \<in> set ?cts"
    using process_extract_set [of _ scorer q ?cts] by (metis nth_mem)
  from filter_loop_eq [OF this, of "search_choices st" "[]"] False
  show ?thesis by (simp add: filter_programs_def Let_def)
qed


lemma insort_key_map_cong:
  "f x = g (h x) \<Longrightarrow> \<forall>y\<in>set ys. f y = g (h y) \<Longrightarrow>
     map h (insort_key f x ys) = insort_key g (h x) (map h ys)"
  by (induction ys) auto

lemma sort_key_map_cong:
  "\<forall>x\<in>set xs. f x = g (h x) \<Longrightarrow> map h (sort_key f xs) = sort_key g (map h xs)"
  by (induction xs) (simp_all add: insort_key_map_cong)

lemma nth_enumerate_map:
  "length cts = length orig \<Longrightarrow>
     map (\<lambda>r. orig ! snd (snd r))
       (map (\<lambda>(index, choice). (choice, sc choice, index)) (enumerate 0 cts)) = orig"
proof -
  assume len: "length cts = length orig"
  have "map (\<lambda>r. orig ! snd (snd r))
       (map (\<lambda>(index, choice). (choice, sc choice, index)) (enumerate 0 cts)) =
     map (\<lambda>x. orig ! fst x) (enumerate 0 cts)"
    by (simp add: case_prod_beta comp_def)
  also have "\<dots> = map ((!) orig) (map fst (enumerate 0 cts))"
    by (simp only: map_map comp_def)
  also have "\<dots> = map ((!) orig) [0..<length orig]"
    by (simp add: len)
  also have "\<dots> = orig" by (rule map_nth)
  finally show ?thesis .
qed

text \<open>The view after a search, in terms of the results.\<close>

lemma filter_programs_view:
  assumes "strip q \<noteq> []"
  shows "filter_programs scorer q st =
     Inr (refill_program_list (st\<lparr>program_data :=
        map (\<lambda>r. snd (search_choices st ! the (index_of (map fst (search_choices st)) (fst r))))
          (filter (\<lambda>r. fst (snd r) \<ge> 60)
             (process_extract scorer q (map fst (search_choices st))
                (length (search_choices st))))\<rparr>))"
proof -
  let ?cts = "map fst (search_choices st)"
  have "\<forall>r\<in>set (process_extract scorer q ?cts (length ?cts)). fst r \<in> set ?cts"
    using process_extract_set [of _ scorer q ?cts] by (metis nth_mem)
  from filter_loop_eq [OF this, of "search_choices st" "[]"] assms
  show ?thesis by (simp add: filter_programs_def Let_def)
qed

lemma picked_entry:
  assumes choices: "choices = map (\<lambda>p. (combined_text p, p)) orig"
    and r: "r \<in> set (process_extract scorer q (map fst choices) (length choices))"
  shows "snd (choices ! the (index_of (map fst choices) (fst r))) \<in> set orig \<and>
         scorer q (combined_text (snd (choices ! the (index_of (map fst choices) (fst r))))) =
           fst (snd r)"
proof -
  let ?cts = "map fst choices"
  from r have r': "r \<in> set (process_extract scorer q ?cts (length ?cts))" by simp
  from process_extract_set [OF r'] have "fst r \<in> set ?cts" and sc: "fst (snd r) = scorer q (fst r)"
    by (metis nth_mem, simp)
  from index_of_first [OF this(1)] obtain j where
    j: "index_of ?cts (fst r) = Some j" "j < length ?cts" "?cts ! j = fst r"
    by blast
  from j choices have "snd (choices ! j) = orig ! j" "combined_text (orig ! j) = fst r"
    "j < length orig"
    by simp_all
  with j sc show ?thesis by simp
qed

text \<open>
  Whatever the catalog, the view after a search holds entries of the original list only,
  each of them scores at least 60, the scores do not increase along the view, the original
  list is unchanged, and the view is empty when every entry scores below 60.
\<close>

lemma filter_programs_sound:
  assumes "strip q \<noteq> []"
    and "search_choices st = map (\<lambda>p. (combined_text p, p)) (original_program_data st)"
    and "filter_programs scorer q st = Inr st'"
  shows "set (program_data st') \<subseteq> set (original_program_data st) \<and>
         (\<forall>p\<in>set (program_data st'). scorer q (combined_text p) \<ge> 60) \<and>
         sorted_wrt (\<ge>) (map (\<lambda>p. scorer q (combined_text p)) (program_data st')) \<and>
         original_program_data st' = original_program_data st \<and>
         ((\<forall>p\<in>set (original_program_data st). scorer q (combined_text p) < 60) \<longrightarrow>
            program_data st' = [])"
proof -
  let ?choices = "search_choices st"
  let ?res = "process_extract scorer q (map fst ?choices) (length ?choices)"
  let ?pick = "\<lambda>r. snd (?choices ! the (index_of (map fst ?choices) (fst r)))"
  let ?kept = "filter (\<lambda>r. fst (snd r) \<ge> 60) ?res"
  from filter_programs_view [OF assms(1), of scorer st] assms(3)
  have view: "program_data st' = map ?pick ?kept"
    and orig: "original_program_data st' = original_program_data st"
    by (auto simp: refill_program_list_def)
  have pick: "\<And>r. r \<in> set ?res \<Longrightarrow>
      ?pick r \<in> set (original_program_data st) \<and>
      scorer q (combined_text (?pick r)) = fst (snd r)"
    using picked_entry [OF assms(2)] by blast
  have sub: "set (program_data st') \<subseteq> set (original_program_data st)"
    using pick by (auto simp: view)
  have ge: "\<forall>p\<in>set (program_data st'). scorer q (combined_text p) \<ge> 60"
    using pick by (auto simp: view)
  have "map (\<lambda>p. scorer q (combined_text p)) (program_data st') = map (\<lambda>r. fst (snd r)) ?kept"
    using pick by (simp add: view)
  moreover have "sorted_wrt (\<ge>) (map (\<lambda>r. fst (snd r)) ?kept)"
  proof -
    have "sorted_wrt (\<ge>) (map (\<lambda>r. fst (snd r)) ?res)"
      using process_extract_sorted [of scorer q "map fst ?choices"] by simp
    then have "sorted_wrt (\<lambda>a b. fst (snd a) \<ge> fst (snd b)) ?res"
      by (simp add: sorted_wrt_map)
    then have "sorted_wrt (\<lambda>a b. fst (snd a) \<ge> fst (snd b)) ?kept"
      by (rule sorted_wrt_filter)
    then show ?thesis by (simp add: sorted_wrt_map)
  qed
  ultimately have srt: "sorted_wrt (\<ge>) (map (\<lambda>p. scorer q (combined_text p)) (program_data st'))"
    by simp
  have empty: "program_data st' = []"
    if low: "\<forall>p\<in>set (original_program_data st). scorer q (combined_text p) < 60"
  proof -
    have "\<forall>r\<in>set ?res. \<not> fst (snd r) \<ge> 60"
      using pick low by (metis not_le)
    then have "?kept = []" by (simp add: filter_empty_conv)
    then show ?thesis by (simp add: view)
  qed
  from sub ge srt orig empty show ?thesis by blast
qed

text \<open>
  When no two entries of the catalog have the same search text, the view is the one
  \<open>spec_query\<close> describes.
\<close>

lemma filter_programs_distinct_texts:
  assumes "strip q \<noteq> []"
    and "search_choices st = map (\<lambda>p. (combined_text p, p)) (original_program_data st)"
    and "distinct (map combined_text (original_program_data st))"
    and "filter_programs scorer q st = Inr st'"
  shows "program_data st' = spec_query scorer q (original_program_data st)"
proof -
  let ?orig = "original_program_data st"
  let ?choices = "search_choices st"
  let ?cts = "map combined_text ?orig"
  let ?T = "map (\<lambda>(index, choice). (choice, scorer q choice, index)) (enumerate 0 ?cts)"
  let ?f = "\<lambda>(choice :: string, score :: real, index :: nat). - score"
  let ?res = "sort_key ?f ?T"
  let ?h = "\<lambda>r :: string \<times> real \<times> nat. ?orig ! snd (snd r)"
  let ?g = "\<lambda>p. - scorer q (combined_text p)"
  have cts: "map fst ?choices = ?cts" by (simp add: assms(2) comp_def)
  have res: "process_extract scorer q (map fst ?choices) (length ?choices) = ?res"
    using process_extract_all [of scorer q ?cts] by (simp add: assms(2) comp_def)
  have inT: "\<And>r. r \<in> set ?T \<Longrightarrow>
      snd (snd r) < length ?orig \<and> fst r = combined_text (?orig ! snd (snd r)) \<and>
      fst (snd r) = scorer q (fst r)"
    by (auto simp: in_set_enumerate_eq)
  have pick: "snd (?choices ! the (index_of (map fst ?choices) (fst r))) = ?h r"
    if "r \<in> set ?T" for r
  proof -
    from inT [OF that] have k: "snd (snd r) < length ?cts" "fst r = ?cts ! snd (snd r)"
      by simp_all
    from index_of_distinct [OF assms(3) k(1)] k(2)
    have "index_of ?cts (fst r) = Some (snd (snd r))" by simp
    with k(1) show ?thesis by (simp add: cts) (simp add: assms(2))
  qed
  from filter_programs_view [OF assms(1), of scorer st] assms(4)
  have "program_data st' =
      map (\<lambda>r. snd (?choices ! the (index_of (map fst ?choices) (fst r))))
        (filter (\<lambda>r. fst (snd r) \<ge> 60) ?res)"
    by (auto simp: refill_program_list_def res)
  also have "\<dots> = map ?h (filter (\<lambda>r. fst (snd r) \<ge> 60) ?res)"
    using pick by (intro map_cong refl) auto
  finally have view: "program_data st' = map ?h (filter (\<lambda>r. fst (snd r) \<ge> 60) ?res)" .
  have same: "filter (\<lambda>r. fst (snd r) \<ge> 60) ?res =
      filter (\<lambda>r. scorer q (combined_text (?h r)) \<ge> 60) ?res"
  proof (rule filter_cong [OF refl])
    fix r assume "r \<in> set ?res"
    then have "r \<in> set ?T" by simp
    from inT [OF this]
    show "(fst (snd r) \<ge> 60) = (scorer q (combined_text (?h r)) \<ge> 60)"
      by simp
  qed
  have moved: "map ?h (filter (\<lambda>r. scorer q (combined_text (?h r)) \<ge> 60) ?res) =
      filter (\<lambda>p. scorer q (combined_text p) \<ge> 60) (map ?h ?res)"
    by (simp only: filter_map comp_def)
  have "\<forall>r\<in>set ?T. ?f r = ?g (?h r)"
  proof
    fix r assume "r \<in> set ?T"
    from inT [OF this] show "?f r = ?g (?h r)"
      by (simp add: case_prod_beta)
  qed
  then have sorted: "map ?h ?res = sort_key ?g (map ?h ?T)"
    by (rule sort_key_map_cong)
  have all: "map ?h ?T = ?orig"
    by (rule nth_enumerate_map) simp
  show ?thesis
    unfolding spec_query_def view same moved sorted all ..
qed

text \<open>
  Claim C2, evaluated on a catalog of two entries with the same search text. The
  catalog is \<open>[entry_1, entry_3]\<close> and the query is \<open>''a b c d''\<close>, which both texts
  equal: both entries score 100. The view is \<open>[entry_1, entry_1]\<close>: \<open>entry_3\<close>, whose
  score is at least 60, is not in it, where the search of the specification gives
  \<open>[entry_1, entry_3]\<close>.
\<close>

theorem filter_programs_same_text_misses_entry:
  "\<exists>st'. filter_programs same_text_scorer ''a b c d'' (loaded [entry_1, entry_3]) = Inr st' \<and>
     program_data st' = [entry_1, entry_1] \<and>
     same_text_scorer ''a b c d'' (combined_text entry_3) = 100 \<and>
     entry_3 \<notin> set (program_data st') \<and>
     spec_query same_text_scorer ''a b c d'' [entry_1, entry_3] = [entry_1, entry_3]"
  by (simp add: example_defs search_defs spec_query_def)

text \<open>
  Claim C4, evaluated on a catalog of three entries with equal scores, of which the first
  and the third have the same search text. All three score 100 for the query
  \<open>''a b c d''\<close>. The view is \<open>[entry_1, entry_2, entry_1]\<close>: its last element comes before
  \<open>entry_2\<close> in the catalog, and the view in catalog order would be
  \<open>[entry_1, entry_2, entry_3]\<close>.
\<close>

theorem filter_programs_same_text_order:
  "\<exists>st'. filter_programs same_text_scorer ''a b c d'' (loaded [entry_1, entry_2, entry_3]) = Inr st' \<and>
     program_data st' = [entry_1, entry_2, entry_1] \<and>
     map (same_text_scorer ''a b c d'' \<circ> combined_text) [entry_1, entry_2, entry_3] =
       [100, 100, 100] \<and>
     spec_query same_text_scorer ''a b c d'' [entry_1, entry_2, entry_3] =
       [entry_1, entry_2, entry_3]"
  by (simp add: example_defs search_defs spec_query_def)

text \<open>
  Claim C5, evaluated on the catalog \<open>[entry_1, entry_3]\<close>: after the search for
  \<open>''a b c d''\<close> the entry \<open>entry_1\<close> is twice in the active view and once in the original
  list, which is unchanged.
\<close>

theorem filter_programs_same_text_duplicates:
  "\<exists>st'. filter_programs same_text_scorer ''a b c d'' (loaded [entry_1, entry_3]) = Inr st' \<and>
     original_program_data st' = [entry_1, entry_3] \<and>
     count_list (program_data st') entry_1 = 2 \<and>
     count_list (original_program_data st') entry_1 = 1"
  by (simp add: example_defs search_defs)

section \<open>Launching: properties\<close>

lemmas path_defs =
  binary_path_of_def replace_spaces_def backslash_def dirname_def is_sep_def

lemmas disk_defs = empty_disk_def read_only_disk_def disk_with_def

lemma log_fields [simp]:
  "program_data (log m st) = program_data st"
  "original_program_data (log m st) = original_program_data st"
  "search_choices (log m st) = search_choices st"
  "current_row (log m st) = current_row st"
  "running (log m st) = running st"
  "downloader (log m st) = downloader st"
  "launch_enabled (log m st) = launch_enabled st"
  "popen_calls (log m st) = popen_calls st"
  "log_lines (log m st) = log_lines st @ [m]"
  by (simp_all add: log_def)

lemma launch_existing_program_fields [simp]:
  "program_data (launch_existing_program w p st) = program_data st"
  "current_row (launch_existing_program w p st) = current_row st"
  "running (launch_existing_program w p st) = running st"
  "downloader (launch_existing_program w p st) = downloader st"
  "launch_enabled (launch_existing_program w p st) = launch_enabled st"
  "popen_calls (launch_existing_program w p st) = popen_calls st @ [p]"
  by (simp_all add: launch_existing_program_def Let_def split: option.splits)

lemma loaded_foo_row:
  "0 \<le> current_row (loaded [foo]) \<and>
   current_row (loaded [foo]) < int (length (program_data (loaded [foo])))"
  by (simp add: example_defs)

lemma loaded_foo_entry: "foo = program_data (loaded [foo]) ! nat (current_row (loaded [foo]))"
  by (simp add: example_defs)

text \<open>
  Claim C1 as stated fails when the directory of the destination is missing and cannot
  be created: the file of \<open>Foo\<close> is absent, and no downloader is started.
\<close>

theorem launch_program_absent_without_downloader:
  "\<not> path_exists read_only_disk (binary_path_of (program foo)) \<and>
   current_row (loaded [foo]) = 0 \<and>
   program_data (loaded [foo]) = [foo] \<and>
   running (fst (launch_program read_only_disk (loaded [foo]))) = [] \<and>
   downloader (fst (launch_program read_only_disk (loaded [foo]))) = None \<and>
   popen_calls (fst (launch_program read_only_disk (loaded [foo]))) = []"
  by (simp add: example_defs disk_defs launch_program_def Let_def path_defs)

text \<open>
  Claim C1, amended. For every launch request on a selected entry: if the destination
  file exists, no downloader is started and the file is given to \<open>Popen\<close>; if the file
  is absent and its directory exists or can be created, exactly one downloader is
  started, for the entry's URL and the destination path, and nothing is given to
  \<open>Popen\<close>; if the file is absent and the directory is missing and cannot be created, no
  downloader is started, nothing is given to \<open>Popen\<close>, and the error of
  \<^verbatim>\<open>os.makedirs\<close> escapes. No other exception escapes.
\<close>

theorem launch_program_downloader_iff_absent:
  assumes "0 \<le> current_row st \<and> current_row st < int (length (program_data st))"
    and "entry = program_data st ! nat (current_row st)"
    and "path = binary_path_of (program entry)"
  shows "running (fst (launch_program w st)) =
           running st @
             (if path_exists w path then []
              else if path_exists w (dirname path) \<or> makedirs_error w (dirname path) = None
                then [\<lparr>url = binary_url entry, filename = path\<rparr>]
                else []) \<and>
         downloader (fst (launch_program w st)) =
           (if path_exists w path then downloader st
            else if path_exists w (dirname path) \<or> makedirs_error w (dirname path) = None
              then Some \<lparr>url = binary_url entry, filename = path\<rparr>
              else downloader st) \<and>
         popen_calls (fst (launch_program w st)) =
           popen_calls st @ (if path_exists w path then [path] else []) \<and>
         snd (launch_program w st) =
           (if path_exists w path \<or> path_exists w (dirname path) then None
            else map_option OSError (makedirs_error w (dirname path)))"
  using assms
  by (auto simp: launch_program_def Let_def split: option.splits)

text \<open>
  On an empty disk the launch of \<open>Foo\<close> starts one downloader and no process; on a disk
  that holds the file it starts the process and no downloader; on a disk where nothing
  can be created it starts neither.
\<close>

theorem launch_program_downloader_iff_absent_witness:
  "running (fst (launch_program empty_disk (loaded [foo]))) =
     [\<lparr>url = ''http://x/foo.exe'', filename = binary_path_of ''Foo''\<rparr>] \<and>
   popen_calls (fst (launch_program empty_disk (loaded [foo]))) = [] \<and>
   running (fst (launch_program (disk_with [binary_path_of ''Foo'']) (loaded [foo]))) = [] \<and>
   popen_calls (fst (launch_program (disk_with [binary_path_of ''Foo'']) (loaded [foo]))) =
     [binary_path_of ''Foo''] \<and>
   running (fst (launch_program read_only_disk (loaded [foo]))) = [] \<and>
   popen_calls (fst (launch_program read_only_disk (loaded [foo]))) = [] \<and>
   snd (launch_program read_only_disk (loaded [foo])) = Some (OSError ''Access is denied'')"
proof -
  have path: "binary_path_of ''Foo'' = binary_path_of (program foo)"
    by (simp add: foo_def)
  have start: "running (loaded [foo]) = []" "popen_calls (loaded [foo]) = []"
    "binary_url foo = ''http://x/foo.exe''"
    by (simp_all add: example_defs)
  have disks: "\<not> path_exists empty_disk (binary_path_of ''Foo'')"
    "makedirs_error empty_disk (dirname (binary_path_of ''Foo'')) = None"
    "path_exists (disk_with [binary_path_of ''Foo'']) (binary_path_of ''Foo'')"
    "\<not> path_exists read_only_disk (binary_path_of ''Foo'')"
    "\<not> path_exists read_only_disk (dirname (binary_path_of ''Foo''))"
    "makedirs_error read_only_disk (dirname (binary_path_of ''Foo'')) = Some ''Access is denied''"
    by (simp_all add: disk_defs)
  from launch_program_downloader_iff_absent
         [OF loaded_foo_row loaded_foo_entry path, of empty_disk]
       launch_program_downloader_iff_absent
         [OF loaded_foo_row loaded_foo_entry path, of "disk_with [binary_path_of ''Foo'']"]
       launch_program_downloader_iff_absent
         [OF loaded_foo_row loaded_foo_entry path, of read_only_disk]
       start disks
  show ?thesis by simp
qed

text \<open>
  Claim C8, evaluated where no path exists and the directory cannot be created: the
  \<^verbatim>\<open>OSError\<close> of \<^verbatim>\<open>os.makedirs\<close> escapes \<open>launch_program\<close>. The log has the two lines
  written before the call and no line about the error; no downloader is started and the
  launch button stays enabled.
\<close>

theorem launch_program_makedirs_error_escapes:
  "launch_program read_only_disk (loaded [foo]) =
     ((loaded [foo])\<lparr>log_lines := [''Launch button pressed'', ''Starting download of Foo'']\<rparr>,
      Some (OSError ''Access is denied'')) \<and>
   running (loaded [foo]) = [] \<and> downloader (loaded [foo]) = None \<and>
   launch_enabled (loaded [foo])"
  by (simp add: example_defs disk_defs launch_program_def Let_def log_def path_defs)

text \<open>
  Claim C9 as stated fails in the separators: the path of \<open>Foo\<close> is not
  \<open>./bin/Foo.exe\<close>, and it is not what \<open>Popen\<close> is given when the file exists.
\<close>

theorem binary_path_of_Foo_not_slashes:
  "binary_path_of ''Foo'' \<noteq> ''./bin/Foo.exe'' \<and>
   popen_calls (fst (launch_program (disk_with [binary_path_of ''Foo'']) (loaded [foo]))) \<noteq>
     [''./bin/Foo.exe'']"
  by (simp add: example_defs disk_defs launch_program_def Let_def path_defs)

text \<open>
  Claim C9, amended. The destination path is a function of the name alone: the prefix
  \<open>.\bin\\<close> with backslashes, the name with every space replaced by an underscore (and
  nothing else changed), and the suffix \<open>.exe\<close>. For \<open>Foo\<close> it is \<open>.\bin\Foo.exe\<close>, and it
  is the path given to \<open>Popen\<close> when the file of the selected entry exists.
\<close>

theorem destination_path_of_name:
  "binary_path_of name =
     [CHR ''.'', CHR 0x5C, CHR ''b'', CHR ''i'', CHR ''n'', CHR 0x5C] @
       replace_spaces name @ ''.exe'' \<and>
   length (replace_spaces name) = length name \<and>
   (\<forall>i<length name.
      replace_spaces name ! i = (if name ! i = CHR '' '' then CHR ''_'' else name ! i)) \<and>
   binary_path_of ''Foo'' =
     [CHR ''.'', CHR 0x5C, CHR ''b'', CHR ''i'', CHR ''n'', CHR 0x5C] @ ''Foo.exe'' \<and>
   (0 \<le> current_row st \<and> current_row st < int (length (program_data st)) \<and>
    path_exists w (binary_path_of (program (program_data st ! nat (current_row st)))) \<longrightarrow>
      popen_calls (fst (launch_program w st)) =
        popen_calls st @ [binary_path_of (program (program_data st ! nat (current_row st)))])"
  by (auto simp: binary_path_of_def backslash_def replace_spaces_def launch_program_def Let_def)

text \<open>
  For the name \<open>Bar Baz\<close> the path is \<open>.\bin\Bar_Baz.exe\<close>, and with the file of \<open>Foo\<close>
  on the disk the launch of \<open>Foo\<close> gives \<open>.\bin\Foo.exe\<close> to \<open>Popen\<close>.
\<close>

theorem destination_path_of_name_witness:
  "binary_path_of ''Bar Baz'' =
     [CHR ''.'', CHR 0x5C, CHR ''b'', CHR ''i'', CHR ''n'', CHR 0x5C] @ ''Bar_Baz.exe'' \<and>
   popen_calls (fst (launch_program (disk_with [binary_path_of ''Foo'']) (loaded [foo]))) =
     [''.'' @ [CHR 0x5C] @ ''bin'' @ [CHR 0x5C] @ ''Foo.exe'']"
proof -
  have sel: "program (program_data (loaded [foo]) ! nat (current_row (loaded [foo]))) = ''Foo''"
    "popen_calls (loaded [foo]) = []"
    by (simp_all add: example_defs)
  have "path_exists (disk_with [binary_path_of ''Foo'']) (binary_path_of ''Foo'')"
    by (simp add: disk_with_def)
  with destination_path_of_name [of "''Bar Baz''" "loaded [foo]" "disk_with [binary_path_of ''Foo'']"]
    loaded_foo_row sel
  show ?thesis by (simp add: path_defs)
qed

text \<open>
  Claim C10. \<open>download_succeeded\<close> gives to \<open>Popen\<close> the path of the entry that is
  current in the active list when the signal arrives, and nothing when no row of the list
  is current; the downloader that finished has no part in it.
\<close>

theorem download_succeeded_launches_current_selection:
  "popen_calls (download_succeeded w st) =
     popen_calls st @
       (if 0 \<le> current_row st \<and> current_row st < int (length (program_data st))
        then [binary_path_of (program (program_data st ! nat (current_row st)))] else []) \<and>
   popen_calls (download_succeeded w (st\<lparr>downloader := d, running := r\<rparr>)) =
     popen_calls (download_succeeded w st)"
  by (simp add: download_succeeded_def Let_def)

text \<open>
  The download of \<open>Foo\<close> is started, the user selects the second row, and the download
  succeeds: the path of \<open>Bar Baz\<close> is launched. If instead a search empties the list,
  nothing is launched.
\<close>

theorem download_succeeded_launches_current_selection_witness:
  "downloader (handle_all same_text_scorer
       [(empty_disk, Launch_clicked), (empty_disk, Row_selected 1)] (loaded [foo, bar])) =
     Some \<lparr>url = ''http://x/foo.exe'', filename = binary_path_of ''Foo''\<rparr> \<and>
   popen_calls (download_succeeded empty_disk (handle_all same_text_scorer
       [(empty_disk, Launch_clicked), (empty_disk, Row_selected 1)] (loaded [foo, bar]))) =
     [binary_path_of ''Bar Baz''] \<and>
   popen_calls (download_succeeded empty_disk (handle_all same_text_scorer
       [(empty_disk, Launch_clicked), (empty_disk, Text_changed ''a b c d'')]
       (loaded [foo, bar]))) = []"
proof -
  let ?st1 = "handle_all same_text_scorer
       [(empty_disk, Launch_clicked), (empty_disk, Row_selected 1)] (loaded [foo, bar])"
  let ?st2 = "handle_all same_text_scorer
       [(empty_disk, Launch_clicked), (empty_disk, Text_changed ''a b c d'')]
       (loaded [foo, bar])"
  have st1: "downloader ?st1 =
        Some \<lparr>url = ''http://x/foo.exe'', filename = binary_path_of ''Foo''\<rparr>"
      "current_row ?st1 = 1" "program_data ?st1 = [foo, bar]" "popen_calls ?st1 = []"
    by (simp_all add: example_defs disk_defs handle_def launch_program_def Let_def)
  have st2: "current_row ?st2 = - 1" "program_data ?st2 = []" "popen_calls ?st2 = []"
    by (simp_all add: example_defs disk_defs handle_def launch_program_def Let_def log_def
        search_defs)
  from download_succeeded_launches_current_selection [of empty_disk ?st1]
    download_succeeded_launches_current_selection [of empty_disk ?st2] st1 st2
  show ?thesis by (simp add: bar_def)
qed

lemma filter_programs_frame:
  "filter_programs scorer q st = Inr st' \<Longrightarrow>
     running st' = running st \<and> launch_enabled st' = launch_enabled st \<and>
     original_program_data st' = original_program_data st"
  by (auto simp: filter_programs_def refill_program_list_def Let_def split: if_splits sum.splits)

lemma launch_program_running:
  "running (fst (launch_program w st)) = running st \<and>
     launch_enabled (fst (launch_program w st)) = launch_enabled st \<or>
   (\<exists>job. running (fst (launch_program w st)) = running st @ [job]) \<and>
     \<not> launch_enabled (fst (launch_program w st))"
  by (auto simp: launch_program_def Let_def split: option.splits)

lemma handle_invariant:
  assumes "length (running st) \<le> 1" and "running st \<noteq> [] \<longrightarrow> \<not> launch_enabled st"
  shows "length (running (handle scorer w ev st)) \<le> 1 \<and>
         (running (handle scorer w ev st) \<noteq> [] \<longrightarrow> \<not> launch_enabled (handle scorer w ev st))"
proof (cases ev)
  case Launch_clicked
  show ?thesis
  proof (cases "launch_enabled st")
    case True
    with assms have "running st = []" by blast
    with Launch_clicked True launch_program_running [of w st] show ?thesis
      by (auto simp: handle_def)
  next
    case False
    with Launch_clicked assms show ?thesis by (simp add: handle_def)
  qed
next
  case (Text_changed q)
  with assms show ?thesis
    by (auto simp: handle_def dest: filter_programs_frame split: sum.splits)
next
  case (Row_selected i)
  with assms show ?thesis by (simp add: handle_def)
next
  case Download_succeeded
  with assms show ?thesis by (simp add: handle_def download_succeeded_def Let_def)
next
  case (Download_failed msg)
  with assms show ?thesis by (simp add: handle_def download_failed_def)
next
  case Thread_finished
  with assms show ?thesis
    by (cases "running st")
       (auto simp: handle_def download_finished_def Let_def split: option.splits)
qed

lemma handle_all_invariant:
  "length (running st) \<le> 1 \<Longrightarrow> (running st \<noteq> [] \<longrightarrow> \<not> launch_enabled st) \<Longrightarrow>
     length (running (handle_all scorer evs st)) \<le> 1 \<and>
     (running (handle_all scorer evs st) \<noteq> [] \<longrightarrow>
        \<not> launch_enabled (handle_all scorer evs st))"
proof (induction evs arbitrary: st)
  case Nil
  then show ?case by simp
next
  case (Cons a evs)
  obtain w ev where a: "a = (w, ev)" by (cases a)
  from handle_invariant [OF Cons.prems, of scorer w ev]
  show ?case unfolding a handle_all.simps by (intro Cons.IH) blast+
qed

text \<open>
  Claim C7 as stated fails for \<open>launch_program\<close> itself, which does not look at the
  downloader: called a second time while the download of \<open>Foo\<close> is in flight (the
  directory exists by then, the file does not yet), it starts a second downloader.
\<close>

theorem launch_program_twice_two_downloaders:
  "running (fst (launch_program empty_disk (loaded [foo]))) =
     [\<lparr>url = ''http://x/foo.exe'', filename = binary_path_of ''Foo''\<rparr>] \<and>
   running (fst (launch_program (disk_with [dirname (binary_path_of ''Foo'')])
                   (fst (launch_program empty_disk (loaded [foo]))))) =
     [\<lparr>url = ''http://x/foo.exe'', filename = binary_path_of ''Foo''\<rparr>,
      \<lparr>url = ''http://x/foo.exe'', filename = binary_path_of ''Foo''\<rparr>]"
  by (simp add: example_defs disk_defs launch_program_def Let_def path_defs)

text \<open>
  Claim C7, amended. The guard is the launch button: it is disabled when a download
  starts and enabled again when the thread has finished, and a click on a disabled
  button does not reach \<open>launch_program\<close>. So, whatever the window is sent, starting with
  no downloader running: at most one downloader runs at any time, and while one runs the
  button is disabled and a click on it changes nothing.
\<close>

theorem one_downloader_while_button_guards:
  assumes "running st = []"
  shows "length (running (handle_all scorer evs st)) \<le> 1 \<and>
         (running (handle_all scorer evs st) \<noteq> [] \<longrightarrow>
            \<not> launch_enabled (handle_all scorer evs st) \<and>
            handle scorer w Launch_clicked (handle_all scorer evs st) =
              handle_all scorer evs st)"
  using handle_all_invariant [of st scorer evs] assms
  by (auto simp: handle_def)

text \<open>
  Two clicks in a row on the fresh window with the catalog \<open>[foo]\<close>: one downloader
  runs, and the button is disabled.
\<close>

theorem one_downloader_while_button_guards_witness:
  "running (handle_all same_text_scorer
       [(empty_disk, Launch_clicked), (empty_disk, Launch_clicked)] (loaded [foo])) =
     [\<lparr>url = ''http://x/foo.exe'', filename = binary_path_of ''Foo''\<rparr>] \<and>
   \<not> launch_enabled (handle_all same_text_scorer
       [(empty_disk, Launch_clicked), (empty_disk, Launch_clicked)] (loaded [foo])) \<and>
   length (running (handle_all same_text_scorer
       [(empty_disk, Launch_clicked), (empty_disk, Launch_clicked)] (loaded [foo]))) \<le> 1"
proof -
  let ?evs = "[(empty_disk, Launch_clicked), (empty_disk, Launch_clicked)]"
  have start: "running (loaded [foo]) = []"
    by (simp add: example_defs)
  have run: "running (handle_all same_text_scorer ?evs (loaded [foo])) =
      [\<lparr>url = ''http://x/foo.exe'', filename = binary_path_of ''Foo''\<rparr>]"
    by (simp add: example_defs disk_defs handle_def launch_program_def Let_def)
  from one_downloader_while_button_guards [OF start, of same_text_scorer ?evs empty_disk] run
  show ?thesis by simp
qed

section \<open>Downloader: properties\<close>

lemma write_loop_emitted:
  "write_loop werr b d = (acts, r) \<Longrightarrow>
     progress_then_terminal (emitted acts @ ss) = progress_then_terminal ss"
proof (induction werr b d arbitrary: acts r rule: write_loop.induct)
  case (3 werr chunk rest d)
  then show ?case
    by (auto simp: Let_def split: if_splits option.splits prod.splits)
qed auto

lemma write_loop_no_terminal:
  "write_loop werr b d = (acts, r) \<Longrightarrow> filter is_terminal (emitted acts) = []"
proof (induction werr b d arbitrary: acts r rule: write_loop.induct)
  case (3 werr chunk rest d)
  then show ?case
    by (auto simp: Let_def split: if_splits option.splits prod.splits)
qed auto

lemma write_loop_no_total:
  "write_loop werr b d = (acts, r) \<Longrightarrow> SetTotalProgress n \<notin> set (emitted acts)"
proof (induction werr b d arbitrary: acts r rule: write_loop.induct)
  case (3 werr chunk rest d)
  then show ?case
    by (auto simp: Let_def split: if_splits option.splits prod.splits)
qed auto

lemma write_loop_cumulative:
  "write_loop werr b d = (acts, r) \<Longrightarrow> is_terminal s \<Longrightarrow>
     progress_is_cumulative d (acts @ [Emit s])"
proof (induction werr b d arbitrary: acts r rule: write_loop.induct)
  case (1 werr d)
  then show ?case by (cases s) auto
next
  case (2 werr msg rest d)
  then show ?case by (cases s) auto
next
  case (3 werr chunk rest d)
  then show ?case
    by (cases s) (auto simp: Let_def split: if_splits option.splits prod.splits)
qed

lemma emitted_append: "emitted (a @ b) = emitted a @ emitted b"
  by (induction a rule: emitted.induct) auto

text \<open>
  The shapes of a run: a failure before anything else, or \<open>SetTotalProgress\<close> followed by
  what the loop did (nothing, if the file could not be opened) and one terminal signal.
\<close>

lemma run_cases:
  "(\<exists>msg. run t = [Emit (Failed msg)]) \<or>
   (\<exists>response n acts r s.
      get_response t = Inr response \<and> status_error response = None \<and>
      write_loop (write_error t) (body response) 0 = (acts, r) \<and> is_terminal s \<and>
      (run t = [Emit (SetTotalProgress n), Emit s] \<or>
       run t = Emit (SetTotalProgress n) # acts @ [Emit s]))"
proof (cases "get_response t")
  case (Inl msg)
  then show ?thesis by (simp add: run_def)
next
  case (Inr response)
  obtain acts r where wl: "write_loop (write_error t) (body response) 0 = (acts, r)"
    by (cases "write_loop (write_error t) (body response) 0") auto
  show ?thesis
  proof (cases "status_error response")
    case (Some msg)
    with Inr show ?thesis by (simp add: run_def)
  next
    case None
    show ?thesis
    proof (cases "\<exists>msg. content_length response = Some (Inl msg)")
      case True
      with Inr None show ?thesis by (auto simp: run_def)
    next
      case False
      show ?thesis
      proof (cases "open_error t")
        case (Some msg)
        from Inr None False Some
        have "run t = [Emit (SetTotalProgress
                 (case content_length response of Some (Inr n) \<Rightarrow> n | _ \<Rightarrow> 0)),
               Emit (Failed msg)]"
          by (cases "content_length response")
             (auto simp: run_def split: sum.splits option.splits)
        moreover have "is_terminal (Failed msg)" by simp
        ultimately show ?thesis using Inr None wl by blast
      next
        case no_open: None
        define fin where "fin =
          (case (r, close_error t) of
             (_, Some msg) \<Rightarrow> Failed msg
           | (Some msg, None) \<Rightarrow> Failed msg
           | (None, None) \<Rightarrow> Succeeded)"
        from Inr None False no_open wl
        have "run t = Emit (SetTotalProgress
                 (case content_length response of Some (Inr n) \<Rightarrow> n | _ \<Rightarrow> 0)) #
               acts @ [Emit fin]"
          by (cases "content_length response"; cases r; cases "close_error t")
             (auto simp: run_def fin_def split: sum.splits option.splits)
        moreover have "is_terminal fin"
          by (cases r; cases "close_error t") (simp_all add: fin_def)
        ultimately show ?thesis using Inr None wl by blast
      qed
    qed
  qed
qed

lemma run_order: "signal_order (emitted (run t))"
  using run_cases [of t]
  by (elim disjE exE conjE)
     (auto simp: emitted_append write_loop_emitted elim: is_terminal.elims)

lemma run_one_terminal: "length (filter is_terminal (emitted (run t))) = 1"
  using run_cases [of t]
  by (elim disjE exE conjE) (auto simp: emitted_append write_loop_no_terminal)

lemma run_last_terminal: "is_terminal (last (emitted (run t)))"
  using run_cases [of t]
  by (elim disjE exE conjE) (auto simp: emitted_append)

lemma run_total_once:
  "length (filter (\<lambda>s. \<exists>n. s = SetTotalProgress n) (emitted (run t))) \<le> 1"
  using run_cases [of t]
  by (elim disjE exE conjE)
     (auto simp: emitted_append filter_empty_conv write_loop_no_total elim: is_terminal.elims)

lemma run_total_after_response:
  "SetTotalProgress n \<in> set (emitted (run t)) \<Longrightarrow>
     \<exists>response. get_response t = Inr response \<and> status_error response = None"
  using run_cases [of t]
  by (elim disjE exE conjE) auto

lemma run_cumulative: "progress_is_cumulative 0 (run t)"
  using run_cases [of t]
  by (elim disjE exE conjE)
     (auto simp: write_loop_cumulative elim: is_terminal.elims)

text \<open>
  Claim C6. The signals of a run come in the order \<open>SetTotalProgress\<close> (at most once),
  any number of \<open>SetCurrentProgress\<close>, then one terminal signal: exactly one signal of
  the run is \<open>Succeeded\<close> or \<open>Failed\<close>, and it is the last. \<open>SetTotalProgress\<close> is emitted
  only when the request returned a response whose status is not an error. Every
  \<open>SetCurrentProgress\<close> carries the number of bytes written to the file so far.
\<close>

theorem run_signal_order:
  "signal_order (emitted (run t)) \<and>
   length (filter is_terminal (emitted (run t))) = 1 \<and>
   is_terminal (last (emitted (run t))) \<and>
   length (filter (\<lambda>s. \<exists>n. s = SetTotalProgress n) (emitted (run t))) \<le> 1 \<and>
   ((\<exists>n. SetTotalProgress n \<in> set (emitted (run t))) \<longrightarrow>
      (\<exists>response. get_response t = Inr response \<and> status_error response = None)) \<and>
   progress_is_cumulative 0 (run t)"
  using run_order run_one_terminal run_last_terminal run_total_once run_cumulative
    run_total_after_response
  by blast

text \<open>
  The transfer of five bytes emits the total, the progress 3 and 5, and \<open>Succeeded\<close>; the
  one that breaks after three bytes emits the total 0, the progress 3, and \<open>Failed\<close>.
\<close>

theorem run_signal_order_witness:
  "emitted (run complete_transfer) =
     [SetTotalProgress 5, SetCurrentProgress 3, SetCurrentProgress 5, Succeeded] \<and>
   emitted (run broken_transfer) =
     [SetTotalProgress 0, SetCurrentProgress 3, Failed ''connection reset''] \<and>
   signal_order (emitted (run complete_transfer)) \<and>
   signal_order (emitted (run broken_transfer)) \<and>
   progress_is_cumulative 0 (run complete_transfer) \<and>
   progress_is_cumulative 0 (run broken_transfer)"
proof -
  have "emitted (run complete_transfer) =
     [SetTotalProgress 5, SetCurrentProgress 3, SetCurrentProgress 5, Succeeded]"
    by (simp add: run_def complete_transfer_def)
  moreover have "emitted (run broken_transfer) =
     [SetTotalProgress 0, SetCurrentProgress 3, Failed ''connection reset'']"
    by (simp add: run_def broken_transfer_def)
  ultimately show ?thesis
    using run_signal_order [of complete_transfer] run_signal_order [of broken_transfer]
    by blast
qed

end
